theory Spec2Isabelle
  imports
    Main
    "HOL-Library.Word"
    "HOL-Library.Char_ord"
    "HOL-Library.List_Lexorder"
    "HOL-Library.Sublist"
begin

section \<open>The CrateDB output plugin: plugins/outputs/cratedb/cratedb.go\<close>

text \<open>
  The plugin turns a batch of metrics into one textual INSERT statement. The functions
  embedded here are \<open>insertSQL\<close>, \<open>escapeValue\<close>, \<open>convertMap\<close>, \<open>escapeObject\<close> and
  \<open>escapeString\<close>, together with the parts of Go's \<open>strings\<close>, \<open>sort\<close>, \<open>fmt\<close> and
  \<open>time\<close> packages they call. Go strings are byte strings: \<open>string\<close> here, compared
  byte by byte (the order of \<open>Char_ord\<close> and \<open>List_Lexorder\<close>), as \<open>sort.Strings\<close> does.
\<close>

subsection \<open>Go library functions used by the plugin\<close>

text \<open>\<open>strings.Join(elems, sep)\<close>.\<close>

fun Join :: "string list \<Rightarrow> string \<Rightarrow> string" where
  "Join [] sep = []"
| "Join [x] sep = x"
| "Join (x # y # ys) sep = x @ sep @ Join (y # ys) sep"

text \<open>
  \<open>strings.Replace(s, old, new, -1)\<close> for a non-empty \<open>old\<close>: the occurrences of \<open>old\<close> are
  replaced from left to right, without overlap. (With an empty \<open>old\<close> Go inserts \<open>new\<close> at
  every rune boundary; the plugin only passes the one-byte strings \<open>'\<close> and \<open>"\<close>, and that
  case is not modelled: \<open>s\<close> is returned as it is.)
\<close>

function Replace :: "string \<Rightarrow> string \<Rightarrow> string \<Rightarrow> string" where
  "Replace s old new =
     (if s = [] then []
      else if old \<noteq> [] \<and> prefix old s then new @ Replace (drop (length old) s) old new
      else hd s # Replace (tl s) old new)"
  by pat_completeness auto
termination
  by (relation "measure (\<lambda>(s, old, new). length s)") (auto simp: prefix_def)

declare Replace.simps [simp del]

text \<open>
  Decimal rendering of integers. \<open>utoa\<close> gives the decimal digits of a natural number,
  most significant first; \<open>Sprint_int\<close> is \<open>fmt.Sprint\<close> on a signed integer of any width
  (its verb \<open>%d\<close>: a minus sign for a negative number, then the digits).
\<close>

definition digit :: "nat \<Rightarrow> char" where
  "digit d = ''0123456789'' ! d"

function utoa :: "nat \<Rightarrow> string" where
  "utoa n = (if n < 10 then [digit n] else utoa (n div 10) @ [digit (n mod 10)])"
  by pat_completeness auto
termination
  by (relation "measure id") auto

declare utoa.simps [simp del]

definition Sprint_int :: "int \<Rightarrow> string" where
  "Sprint_int i = (if i < 0 then CHR ''-'' # utoa (nat (- i)) else utoa (nat i))"

text \<open>
  \<open>time.Time\<close>, as the calendar reading of the instant in the value's location: what
  \<open>Date\<close>, \<open>Clock\<close>, \<open>Nanosecond\<close> and \<open>Zone\<close> return. \<open>zoneOffset\<close> is in seconds east of UTC.
\<close>

record Time =
  year :: int
  month :: int
  day :: int
  hour :: int
  minute :: int
  second :: int
  nanosecond :: int
  zoneOffset :: int

datatype Location = UTC | Local | FixedZone string int | LoadLocation string

text \<open>\<open>appendInt\<close> of package \<open>time\<close>: the decimal form of \<open>x\<close>, zero-padded to \<open>width\<close>.\<close>

definition appendInt :: "int \<Rightarrow> nat \<Rightarrow> string" where
  "appendInt x width =
     (let ds = utoa (nat \<bar>x\<bar>)
      in (if x < 0 then ''-'' else []) @ replicate (width - length ds) (CHR ''0'') @ ds)"

text \<open>
  \<open>formatNano\<close> of package \<open>time\<close>: the nine digits of the nanoseconds, cut to the first
  \<open>n\<close>; with \<open>trim\<close>, trailing zeros are dropped, and nothing at all is written (not even
  the point) when no digit is left.
\<close>

fun trimZeros :: "string \<Rightarrow> nat \<Rightarrow> nat" where
  "trimZeros buf 0 = 0"
| "trimZeros buf (Suc k) = (if buf ! k = CHR ''0'' then trimZeros buf k else Suc k)"

definition formatNano :: "nat \<Rightarrow> nat \<Rightarrow> bool \<Rightarrow> string" where
  "formatNano nanosec n trim =
     (let buf = map (\<lambda>i. digit ((nanosec div 10 ^ (8 - i)) mod 10)) [0..<9];
          n1 = min n 9;
          n2 = (if trim then trimZeros buf n1 else n1)
      in if trim \<and> n2 = 0 then [] else CHR ''.'' # take n2 buf)"

text \<open>Go's integer division truncates towards zero.\<close>

definition quo :: "int \<Rightarrow> int \<Rightarrow> int" where
  "quo a b = sgn a * sgn b * (\<bar>a\<bar> div \<bar>b\<bar>)"

text \<open>
  The layout element \<open>-0700\<close>: the sign and the hours and minutes of the zone offset.
\<close>

definition formatNumTZ :: "int \<Rightarrow> string" where
  "formatNumTZ offset =
     (let zone = quo offset 60
      in if zone < 0
         then ''-'' @ appendInt ((- zone) div 60) 2 @ appendInt ((- zone) mod 60) 2
         else ''+'' @ appendInt (zone div 60) 2 @ appendInt (zone mod 60) 2)"

text \<open>
  \<open>t.Format("2006-01-02T15:04:05.999-0700")\<close>, the only layout the plugin uses: long year,
  zero-padded month and day, \<open>T\<close>, zero-padded hour, minute and second, a fraction of at
  most three digits with trailing zeros removed, and the numeric zone.
\<close>

definition Format :: "Time \<Rightarrow> string" where
  "Format t =
     appendInt (year t) 4 @ ''-'' @ appendInt (month t) 2 @ ''-'' @ appendInt (day t) 2
     @ ''T'' @ appendInt (hour t) 2 @ '':'' @ appendInt (minute t) 2 @ '':''
     @ appendInt (second t) 2 @ formatNano (nat (nanosecond t)) 3 True
     @ formatNumTZ (zoneOffset t)"

text \<open>
  What stays a parameter of the model: the text \<open>fmt.Sprint\<close> gives for a floating-point
  number (given by its IEEE bits), and \<open>Time.In\<close>, which reads an instant in a location
  from the time zone database.
\<close>

record stdlib =
  Sprint_float32 :: "32 word \<Rightarrow> string"
  Sprint_float64 :: "64 word \<Rightarrow> string"
  In :: "Time \<Rightarrow> Location \<Rightarrow> Time"

subsection \<open>Values and metrics\<close>

text \<open>
  A Go \<open>interface{}\<close> value with its dynamic type. Go's \<open>int\<close> has 64 bits on the
  platforms telegraf is built for. A Go map is an association list with distinct keys,
  in the order a \<open>range\<close> loop happens to visit it. \<open>VNil\<close> is the nil interface, \<open>VOther\<close>
  a value of any other type, given by the name \<open>%T\<close> prints.
\<close>

datatype val =
    VString string
  | VInt "64 word"
  | VInt32 "32 word"
  | VInt64 "64 word"
  | VFloat32 "32 word"
  | VFloat64 "64 word"
  | VTime Time
  | VMapString "(string \<times> string) list"
  | VMapIface "(string \<times> val) list"
  | VUint "64 word"
  | VUint32 "32 word"
  | VUint64 "64 word"
  | VBool bool
  | VNil
  | VOther string

text \<open>The name of the dynamic type, as the verb \<open>%T\<close> prints it.\<close>

fun typeName :: "val \<Rightarrow> string" where
  "typeName (VString _) = ''string''"
| "typeName (VInt _) = ''int''"
| "typeName (VInt32 _) = ''int32''"
| "typeName (VInt64 _) = ''int64''"
| "typeName (VFloat32 _) = ''float32''"
| "typeName (VFloat64 _) = ''float64''"
| "typeName (VTime _) = ''time.Time''"
| "typeName (VMapString _) = ''map[string]string''"
| "typeName (VMapIface _) = ''map[string]interface {}''"
| "typeName (VUint _) = ''uint''"
| "typeName (VUint32 _) = ''uint32''"
| "typeName (VUint64 _) = ''uint64''"
| "typeName (VBool _) = ''bool''"
| "typeName VNil = ''<nil>''"
| "typeName (VOther n) = n"

text \<open>
  The error of \<open>escapeValue\<close>, \<open>fmt.Errorf("unexpected type: %T: %#v", t, t)\<close>: it carries
  the type name and the value.
\<close>

datatype error = UnexpectedType string val

text \<open>\<open>telegraf.Metric\<close>, through the five methods \<open>insertSQL\<close> calls.\<close>

record Metric =
  HashID :: "64 word"
  Time :: Time
  Name :: string
  Tags :: "(string \<times> string) list"
  Fields :: "(string \<times> val) list"

text \<open>\<open>m[k]\<close> on a Go map: the nil interface for a missing key.\<close>

definition index :: "(string \<times> val) list \<Rightarrow> string \<Rightarrow> val" where
  "index m k = (case map_of m k of Some v \<Rightarrow> v | None \<Rightarrow> VNil)"

subsection \<open>The encoder\<close>

definition escapeString :: "string \<Rightarrow> string \<Rightarrow> string" where
  "escapeString s quote = quote @ Replace s quote (quote @ quote) @ quote"

definition convertMap :: "(string \<times> string) list \<Rightarrow> (string \<times> val) list" where
  "convertMap m = map (\<lambda>(k, v). (k, VString v)) m"

text \<open>A measure for the recursion of the encoder.\<close>

fun weight :: "val \<Rightarrow> nat" where
  "weight (VTime t) = 1"
| "weight (VMapString t) = 2"
| "weight (VMapIface t) = 2 + sum_list (map (\<lambda>p. weight (snd p)) t)"
| "weight _ = 0"

definition weights :: "(string \<times> val) list \<Rightarrow> nat" where
  "weights m = 1 + sum_list (map (\<lambda>p. weight (snd p)) m)"

lemma weights_convertMap: "weights (convertMap t) = 1"
  by (induction t) (auto simp: weights_def convertMap_def)

lemma weight_index: "weight (index m k) < weights m"
proof -
  have "map_of m k = Some v \<Longrightarrow> weight v \<le> sum_list (map (\<lambda>p. weight (snd p)) m)" for v
    by (induction m) (auto split: if_splits)
  then show ?thesis
    by (auto simp: index_def weights_def le_imp_less_Suc split: option.splits)
qed

lemma weights_less_weight: "weights t < Suc (Suc (sum_list (map (\<lambda>p. weight (snd p)) t)))"
  by (simp add: weights_def)

text \<open>
  \<open>escapeValue\<close> is the type switch of the source, case by case; \<open>escapeObject\<close> collects
  and sorts the keys and \<open>escapePairs\<close> is its loop over the sorted keys, which stops at
  the first value that fails.
\<close>

function escapeValue :: "stdlib \<Rightarrow> val \<Rightarrow> error + string"
  and escapeObject :: "stdlib \<Rightarrow> (string \<times> val) list \<Rightarrow> error + string"
  and escapePairs :: "stdlib \<Rightarrow> (string \<times> val) list \<Rightarrow> string list \<Rightarrow> error + string list"
where
  "escapeValue L (VString t) = Inr (escapeString t [CHR 0x27])"
| "escapeValue L (VInt t) = Inr (Sprint_int (sint t))"
| "escapeValue L (VInt32 t) = Inr (Sprint_int (sint t))"
| "escapeValue L (VInt64 t) = Inr (Sprint_int (sint t))"
| "escapeValue L (VFloat32 t) = Inr (Sprint_float32 L t)"
| "escapeValue L (VFloat64 t) = Inr (Sprint_float64 L t)"
| "escapeValue L (VTime t) = escapeValue L (VString (Format t))"
| "escapeValue L (VMapString t) = escapeObject L (convertMap t)"
| "escapeValue L (VMapIface t) = escapeObject L t"
| "escapeValue L (VUint t) = Inl (UnexpectedType (typeName (VUint t)) (VUint t))"
| "escapeValue L (VUint32 t) = Inl (UnexpectedType (typeName (VUint32 t)) (VUint32 t))"
| "escapeValue L (VUint64 t) = Inl (UnexpectedType (typeName (VUint64 t)) (VUint64 t))"
| "escapeValue L (VBool t) = Inl (UnexpectedType (typeName (VBool t)) (VBool t))"
| "escapeValue L VNil = Inl (UnexpectedType (typeName VNil) VNil)"
| "escapeValue L (VOther t) = Inl (UnexpectedType (typeName (VOther t)) (VOther t))"
| "escapeObject L m =
     (let keys = sort (map fst m)
      in case escapePairs L m keys of
           Inl err \<Rightarrow> Inl err
         | Inr pairs \<Rightarrow> Inr (''{'' @ Join pairs '', '' @ ''}''))"
| "escapePairs L m [] = Inr []"
| "escapePairs L m (k # ks) =
     (case escapeValue L (index m k) of
        Inl err \<Rightarrow> Inl err
      | Inr v \<Rightarrow>
          (case escapePairs L m ks of
             Inl err \<Rightarrow> Inl err
           | Inr pairs \<Rightarrow> Inr ((escapeString k [CHR 0x22] @ '' = '' @ v) # pairs)))"
  by pat_completeness auto
termination
  by (relation "inv_image (less_than <*lex*> less_than)
        (\<lambda>x. case x of
           Inl (L, v) \<Rightarrow> (weight v, 0)
         | Inr (Inl (L, m)) \<Rightarrow> (weights m, Suc (length m))
         | Inr (Inr (L, m, ks)) \<Rightarrow> (weights m, length ks))")
     (auto simp: weights_convertMap weight_index weights_less_weight)

subsection \<open>The statement builder\<close>

text \<open>
  The conversion \<open>int64(m.HashID())\<close> keeps the 64 bits; a \<open>VInt64\<close> is read as a signed
  number (\<open>sint\<close>) when it is rendered.
\<close>

definition int64 :: "64 word \<Rightarrow> 64 word" where
  "int64 u = u"

definition cols :: "stdlib \<Rightarrow> Location \<Rightarrow> Metric \<Rightarrow> val list" where
  "cols L loc m =
     [VInt64 (int64 (HashID m)),
      VTime (In L (Time m) loc),
      VString (Name m),
      VMapString (Tags m),
      VMapIface (Fields m)]"

text \<open>The inner loop of \<open>insertSQL\<close>: the columns of one metric, up to the first error.\<close>

fun escapeCols :: "stdlib \<Rightarrow> val list \<Rightarrow> error + string list" where
  "escapeCols L [] = Inr []"
| "escapeCols L (col # rest) =
     (case escapeValue L col of
        Inl err \<Rightarrow> Inl err
      | Inr escaped \<Rightarrow>
          (case escapeCols L rest of
             Inl err \<Rightarrow> Inl err
           | Inr escapedCols \<Rightarrow> Inr (escaped # escapedCols)))"

text \<open>The outer loop of \<open>insertSQL\<close>: one row per metric, up to the first error.\<close>

fun buildRows :: "stdlib \<Rightarrow> Location \<Rightarrow> Metric list \<Rightarrow> error + string list" where
  "buildRows L loc [] = Inr []"
| "buildRows L loc (m # ms) =
     (case escapeCols L (cols L loc m) of
        Inl err \<Rightarrow> Inl err
      | Inr escapedCols \<Rightarrow>
          (case buildRows L loc ms of
             Inl err \<Rightarrow> Inl err
           | Inr rows \<Rightarrow> Inr ((''('' @ Join escapedCols '', '' @ '')'') # rows)))"

text \<open>
  \<open>insertSQL\<close> returns the statement, or the error and no text (\<open>return "", err\<close>).
\<close>

definition insertSQL :: "stdlib \<Rightarrow> string \<Rightarrow> Metric list \<Rightarrow> Location \<Rightarrow> error + string" where
  \<open>insertSQL L table metrics loc =
     (case buildRows L loc metrics of
        Inl err \<Rightarrow> Inl err
      | Inr rows \<Rightarrow>
          Inr (''INSERT INTO '' @ table
               @ '' ("hash_id", "timestamp", "name", "tags", "fields")\<newline>VALUES\<newline>''
               @ Join rows '' ,\<newline>'' @ '';''))\<close>

subsection \<open>The earlier revision of the encoder\<close>

text \<open>
  The source file keeps, after the current text, the earlier revision of the plugin. Its
  encoder differs in one case of the type switch: the unsigned types are listed with the
  signed ones, \<open>case int, uint, int32, uint32, int64, uint64, float32, float64\<close>, and are
  rendered by \<open>fmt.Sprint\<close> as unsigned numbers. \<open>Sprint_uint\<close> is \<open>fmt.Sprint\<close> on an
  unsigned integer of any width.
\<close>

definition Sprint_uint :: "int \<Rightarrow> string" where
  "Sprint_uint u = utoa (nat u)"

function escapeValue_rev0 :: "stdlib \<Rightarrow> val \<Rightarrow> error + string"
  and escapeObject_rev0 :: "stdlib \<Rightarrow> (string \<times> val) list \<Rightarrow> error + string"
  and escapePairs_rev0 :: "stdlib \<Rightarrow> (string \<times> val) list \<Rightarrow> string list \<Rightarrow> error + string list"
where
  "escapeValue_rev0 L (VString t) = Inr (escapeString t [CHR 0x27])"
| "escapeValue_rev0 L (VInt t) = Inr (Sprint_int (sint t))"
| "escapeValue_rev0 L (VUint t) = Inr (Sprint_uint (uint t))"
| "escapeValue_rev0 L (VInt32 t) = Inr (Sprint_int (sint t))"
| "escapeValue_rev0 L (VUint32 t) = Inr (Sprint_uint (uint t))"
| "escapeValue_rev0 L (VInt64 t) = Inr (Sprint_int (sint t))"
| "escapeValue_rev0 L (VUint64 t) = Inr (Sprint_uint (uint t))"
| "escapeValue_rev0 L (VFloat32 t) = Inr (Sprint_float32 L t)"
| "escapeValue_rev0 L (VFloat64 t) = Inr (Sprint_float64 L t)"
| "escapeValue_rev0 L (VTime t) = escapeValue_rev0 L (VString (Format t))"
| "escapeValue_rev0 L (VMapString t) = escapeObject_rev0 L (convertMap t)"
| "escapeValue_rev0 L (VMapIface t) = escapeObject_rev0 L t"
| "escapeValue_rev0 L (VBool t) = Inl (UnexpectedType (typeName (VBool t)) (VBool t))"
| "escapeValue_rev0 L VNil = Inl (UnexpectedType (typeName VNil) VNil)"
| "escapeValue_rev0 L (VOther t) = Inl (UnexpectedType (typeName (VOther t)) (VOther t))"
| "escapeObject_rev0 L m =
     (let keys = sort (map fst m)
      in case escapePairs_rev0 L m keys of
           Inl err \<Rightarrow> Inl err
         | Inr pairs \<Rightarrow> Inr (''{'' @ Join pairs '', '' @ ''}''))"
| "escapePairs_rev0 L m [] = Inr []"
| "escapePairs_rev0 L m (k # ks) =
     (case escapeValue_rev0 L (index m k) of
        Inl err \<Rightarrow> Inl err
      | Inr v \<Rightarrow>
          (case escapePairs_rev0 L m ks of
             Inl err \<Rightarrow> Inl err
           | Inr pairs \<Rightarrow> Inr ((escapeString k [CHR 0x22] @ '' = '' @ v) # pairs)))"
  by pat_completeness auto
termination
  by (relation "inv_image (less_than <*lex*> less_than)
        (\<lambda>x. case x of
           Inl (L, v) \<Rightarrow> (weight v, 0)
         | Inr (Inl (L, m)) \<Rightarrow> (weights m, Suc (length m))
         | Inr (Inr (L, m, ks)) \<Rightarrow> (weights m, length ks))")
     (auto simp: weights_convertMap weight_index weights_less_weight)

subsection \<open>Notions used in the statements\<close>

text \<open>The values the type switch of \<open>escapeValue\<close> sends to its default case.\<close>

fun unsupported :: "val \<Rightarrow> bool" where
  "unsupported (VUint _) = True"
| "unsupported (VUint32 _) = True"
| "unsupported (VUint64 _) = True"
| "unsupported (VBool _) = True"
| "unsupported VNil = True"
| "unsupported (VOther _) = True"
| "unsupported _ = False"

text \<open>
  Reading a decimal literal back: the number a string of digits denotes, with an optional
  leading minus sign.
\<close>

definition digitValue :: "char \<Rightarrow> nat" where
  "digitValue c = of_char c - 48"

definition decimalNat :: "string \<Rightarrow> nat" where
  "decimalNat s = foldl (\<lambda>a c. 10 * a + digitValue c) 0 s"

definition decimalInt :: "string \<Rightarrow> int" where
  "decimalInt s =
     (case s of
        [] \<Rightarrow> 0
      | c # r \<Rightarrow> if c = CHR ''-'' then - int (decimalNat r) else int (decimalNat s))"



text \<open>
  Reading a quoted literal back, as an SQL parser does: \<open>unquote q\<close> strips the outer
  quotes and \<open>collapse q\<close> turns each doubled quote of the body into one quote; a body
  with a single quote left over is not a literal. \<open>doubled q s\<close> is \<open>s\<close> with every \<open>q\<close>
  written twice.
\<close>

fun collapse :: "char \<Rightarrow> string \<Rightarrow> string option" where
  "collapse q [] = Some []"
| "collapse q [c] = (if c = q then None else Some [c])"
| "collapse q (c # d # cs) =
     (if c = q
      then (if d = q then map_option ((#) q) (collapse q cs) else None)
      else map_option ((#) c) (collapse q (d # cs)))"

definition unquote :: "char \<Rightarrow> string \<Rightarrow> string option" where
  "unquote q lit =
     (case lit of
        [] \<Rightarrow> None
      | c # rest \<Rightarrow>
          if c = q \<and> rest \<noteq> [] \<and> last rest = q then collapse q (butlast rest) else None)"

definition doubled :: "char \<Rightarrow> string \<Rightarrow> string" where
  "doubled q s = concat (map (\<lambda>c. if c = q then [q, q] else [c]) s)"

text \<open>
  The statement text in the words of the specification, to compare with what
  \<open>insertSQL\<close> returns: the column list, a space, \<open>VALUES\<close>, a space, and the tuples joined
  by a comma and a newline.
\<close>

definition spec_statement :: "string \<Rightarrow> string list \<Rightarrow> string" where
  \<open>spec_statement table tuples =
     ''INSERT INTO '' @ table @ '' ("hash_id", "timestamp", "name", "tags", "fields") VALUES ''
     @ Join tuples '',\<newline>'' @ '';''\<close>

text \<open>
  Two values with the same content: equal, or two maps with the same keys whose values
  have the same content, key by key, whatever the order in which each map lists them.
\<close>

lemma weight_index_less:
  "weight (index m k) < Suc (Suc (sum_list (map (\<lambda>p. weight (snd p)) m)))"
  using weight_index [of m k] by (simp add: weights_def)

function same_content :: "val \<Rightarrow> val \<Rightarrow> bool" where
  "same_content v w =
     (case v of
        VMapIface m1 \<Rightarrow>
          (case w of
             VMapIface m2 \<Rightarrow>
               distinct (map fst m1) \<and> distinct (map fst m2)
               \<and> set (map fst m1) = set (map fst m2)
               \<and> list_all (\<lambda>k. same_content (index m1 k) (index m2 k)) (map fst m1)
           | _ \<Rightarrow> False)
      | _ \<Rightarrow> v = w)"
  by pat_completeness auto
termination
  by (relation "measure (\<lambda>(v, w). weight v)") (simp_all add: weight_index_less)

declare same_content.simps [simp del]

text \<open>
  The offending value of an encoding. \<open>inside u v\<close>: \<open>u\<close> is \<open>v\<close> itself or is found in the
  map \<open>v\<close>, under one of its keys, at any depth. \<open>offending v\<close> is the value at which the
  encoding of \<open>v\<close> stops: \<open>v\<close> itself when the type switch sends it to its default case;
  for a map, the first offending value among its values, the keys taken in ascending
  order; and none otherwise. \<open>typeError u\<close> is the error of the default case for \<open>u\<close>, and
  \<open>errorOf r\<close> the error of a result, if it has one.
\<close>

function inside :: "val \<Rightarrow> val \<Rightarrow> bool" where
  "inside u v =
     (u = v \<or>
      (case v of
         VMapIface m \<Rightarrow> list_ex (\<lambda>k. inside u (index m k)) (map fst m)
       | _ \<Rightarrow> False))"
  by pat_completeness auto
termination
  by (relation "measure (\<lambda>(u, v). weight v)") (simp_all add: weight_index_less)

declare inside.simps [simp del]

fun firstSome :: "'a option list \<Rightarrow> 'a option" where
  "firstSome [] = None"
| "firstSome (None # xs) = firstSome xs"
| "firstSome (Some x # xs) = Some x"

function offending :: "val \<Rightarrow> val option" where
  "offending v =
     (case v of
        VMapIface m \<Rightarrow> firstSome (map (\<lambda>k. offending (index m k)) (sort (map fst m)))
      | _ \<Rightarrow> if unsupported v then Some v else None)"
  by pat_completeness auto
termination
  by (relation "measure weight") (simp_all add: weight_index_less)

declare offending.simps [simp del]

definition errorOf :: "error + 'a \<Rightarrow> error option" where
  "errorOf r = (case r of Inl e \<Rightarrow> Some e | Inr _ \<Rightarrow> None)"

definition typeError :: "val \<Rightarrow> error" where
  "typeError u = UnexpectedType (typeName u) u"

subsection \<open>Inputs for worked examples\<close>

text \<open>
  A library instance that renders the two floating-point numbers used below and reads
  every time in the zone it already has; the metric of the specification's scenario; a
  metric without tags and fields; a metric whose fields hold a boolean and, in a nested
  map, an unsigned integer; a map of fields with a nested map, listed in two orders; a
  time with a negative zone offset.
\<close>

definition exampleLib :: stdlib where
  "exampleLib =
     \<lparr>Sprint_float32 = (\<lambda>w. if w = 0x3FC00000 then ''1.5'' else ''0''),
      Sprint_float64 = (\<lambda>w. if w = 0x4045400000000000 then ''42.5'' else ''0''),
      In = (\<lambda>t loc. t)\<rparr>"

definition cpuMetric :: Metric where
  "cpuMetric =
     \<lparr>HashID = 14305102049502225714,
      Time = \<lparr>year = 2023, month = 1, day = 2, hour = 3, minute = 4, second = 5,
              nanosecond = 678000000, zoneOffset = 0\<rparr>,
      Name = ''cpu'',
      Tags = [(''host'', [CHR ''a'', CHR 0x27, CHR ''s'', CHR ''-'', CHR ''b'', CHR ''o'', CHR ''x''])],
      Fields = [(''usage'', VFloat64 0x4045400000000000)]\<rparr>"

definition idleMetric :: Metric where
  "idleMetric =
     \<lparr>HashID = 7,
      Time = \<lparr>year = 2023, month = 1, day = 2, hour = 3, minute = 4, second = 5,
              nanosecond = 0, zoneOffset = 0\<rparr>,
      Name = ''idle'',
      Tags = [],
      Fields = []\<rparr>"

definition badMetric :: Metric where
  "badMetric =
     \<lparr>HashID = 9,
      Time = \<lparr>year = 2023, month = 1, day = 2, hour = 3, minute = 4, second = 5,
              nanosecond = 0, zoneOffset = 0\<rparr>,
      Name = ''net'',
      Tags = [(''host'', ''b'')],
      Fields = [(''up'', VBool True), (''rx'', VInt64 3),
                (''a'', VMapIface [(''n'', VUint64 1)])]\<rparr>"

definition nestedFields :: "(string \<times> val) list" where
  \<open>nestedFields =
     [(''b'', VInt 1),
      (''a'', VMapIface [(''z'', VInt32 (- 5)), (''y"'', VString ''q'')])]\<close>

definition nestedFields' :: "(string \<times> val) list" where
  \<open>nestedFields' =
     [(''a'', VMapIface [(''z'', VInt32 (- 5)), (''y"'', VString ''q'')]),
      (''b'', VInt 1)]\<close>




section \<open>Properties\<close>

subsection \<open>Library functions: replacing, decimal text, reading a word as signed\<close>

lemma Replace_char:
  "Replace s [q] [q, q] = concat (map (\<lambda>c. if c = q then [q, q] else [c]) s)"
proof (induction s)
  case Nil
  show ?case by (simp add: Replace.simps)
next
  case (Cons c cs)
  have "Replace (c # cs) [q] [q, q] =
          (if c = q then [q, q] @ Replace cs [q] [q, q] else c # Replace cs [q] [q, q])"
    by (subst Replace.simps) simp
  with Cons show ?case by simp
qed

lemma escapeString_char:
  "escapeString s [q] = q # concat (map (\<lambda>c. if c = q then [q, q] else [c]) s) @ [q]"
  by (simp add: escapeString_def Replace_char)

lemma digit_cases:
  assumes "d < 10"
  shows "d = 0 \<or> d = 1 \<or> d = 2 \<or> d = 3 \<or> d = 4 \<or> d = 5 \<or> d = 6 \<or> d = 7 \<or> d = 8 \<or> d = (9::nat)"
  using assms by arith

lemma digitValue_digit: "d < 10 \<Longrightarrow> digitValue (digit d) = d"
  using digit_cases [of d] by (auto simp: digitValue_def digit_def)

lemma digit_in_digits: "d < 10 \<Longrightarrow> digit d \<in> set ''0123456789''"
  using digit_cases [of d] by (auto simp: digit_def)

lemma decimalNat_snoc: "decimalNat (s @ [c]) = 10 * decimalNat s + digitValue c"
  by (simp add: decimalNat_def)

lemma decimalNat_utoa: "decimalNat (utoa n) = n"
proof (induction n rule: utoa.induct)
  case (1 n)
  show ?case
  proof (cases "n < 10")
    case True
    then show ?thesis
      by (subst utoa.simps) (simp add: decimalNat_def digitValue_digit)
  next
    case False
    with 1 have "decimalNat (utoa (n div 10)) = n div 10" by simp
    with False show ?thesis
      by (subst utoa.simps) (simp add: decimalNat_snoc digitValue_digit)
  qed
qed

lemma set_utoa: "set (utoa n) \<subseteq> set ''0123456789''"
proof (induction n rule: utoa.induct)
  case (1 n)
  show ?case
  proof (cases "n < 10")
    case True
    then show ?thesis
      using digit_in_digits [of n] by (subst utoa.simps) simp
  next
    case False
    with 1 have "set (utoa (n div 10)) \<subseteq> set ''0123456789''" by simp
    with False show ?thesis
      using digit_in_digits [of "n mod 10"] by (subst utoa.simps) simp
  qed
qed

lemma utoa_not_Nil: "utoa n \<noteq> []"
  by (subst utoa.simps) simp

lemma hd_utoa_not_minus: "hd (utoa n) \<noteq> CHR ''-''"
proof -
  have "hd (utoa n) \<in> set (utoa n)" by (simp add: utoa_not_Nil)
  with set_utoa [of n] show ?thesis by auto
qed

lemma decimalInt_Sprint_int: "decimalInt (Sprint_int i) = i"
proof (cases "i < 0")
  case True
  then show ?thesis by (simp add: decimalInt_def Sprint_int_def decimalNat_utoa)
next
  case False
  obtain c r where cr: "utoa (nat i) = c # r"
    using utoa_not_Nil [of "nat i"] by (cases "utoa (nat i)") auto
  with hd_utoa_not_minus [of "nat i"] have "c \<noteq> CHR ''-''" by simp
  moreover have "decimalNat (c # r) = nat i" using decimalNat_utoa [of "nat i"] cr by simp
  ultimately show ?thesis using False cr by (simp add: decimalInt_def Sprint_int_def)
qed



lemma hd_Sprint_int_neg: "i < 0 \<Longrightarrow> hd (Sprint_int i) = CHR ''-''"
  by (simp add: Sprint_int_def)

lemma hd_Sprint_int_nonneg: "0 \<le> i \<Longrightarrow> hd (Sprint_int i) \<noteq> CHR ''-''"
  using hd_utoa_not_minus [of "nat i"] by (simp add: Sprint_int_def)

lemma sint_64_high:
  assumes "2 ^ 63 \<le> uint (w :: 64 word)"
  shows "sint w = uint w - 2 ^ 64"
proof -
  let ?s = "sint w"
  have u: "uint w = ?s mod 2 ^ 64"
    using uint_sint [of w] by (simp add: take_bit_eq_mod)
  have lo: "- (2 ^ 63) \<le> ?s" using sint_ge [of w] by simp
  have hi: "?s < 2 ^ 63" using sint_lt [of w] by simp
  have neg: "?s < 0"
  proof (rule ccontr)
    assume "\<not> ?s < 0"
    with hi have "?s mod 2 ^ 64 = ?s" by simp
    with u assms hi show False by simp
  qed
  have "(?s + 2 ^ 64) mod 2 ^ 64 = ?s + 2 ^ 64"
    using lo neg by (intro mod_pos_pos_trivial) simp_all
  then have "?s mod 2 ^ 64 = ?s + 2 ^ 64" by simp
  with u have "uint w = ?s + 2 ^ 64" by simp
  then show ?thesis by simp
qed

lemma uint_64_less: "uint (w :: 64 word) < 2 ^ 64"
  using uint_lt2p [of w] by simp

lemma trimZeros_3:
  "trimZeros buf 3 =
     (if buf ! 2 = CHR ''0''
      then (if buf ! 1 = CHR ''0'' then (if buf ! 0 = CHR ''0'' then 0 else 1) else 2)
      else 3)"
  by (simp add: numeral_3_eq_3 numeral_2_eq_2)

lemma formatNano_3:
  "formatNano ns 3 True =
     (if digit (ns div 1000000 mod 10) \<noteq> CHR ''0''
      then [CHR ''.'', digit (ns div 100000000 mod 10), digit (ns div 10000000 mod 10),
            digit (ns div 1000000 mod 10)]
      else if digit (ns div 10000000 mod 10) \<noteq> CHR ''0''
      then [CHR ''.'', digit (ns div 100000000 mod 10), digit (ns div 10000000 mod 10)]
      else if digit (ns div 100000000 mod 10) \<noteq> CHR ''0''
      then [CHR ''.'', digit (ns div 100000000 mod 10)]
      else [])"
  by (simp add: formatNano_def trimZeros_3 upt_rec Let_def)

text \<open>The equations that evaluate the model on a concrete input.\<close>

lemmas eval_simps =
  insertSQL_def cols_def int64_def escapeString_def Replace.simps Sprint_int_def utoa.simps
  digit_def Format_def appendInt_def formatNano_3 formatNumTZ_def quo_def convertMap_def
  index_def exampleLib_def

subsection \<open>The loops of the encoder and of the statement builder\<close>

lemma escapeCols_projr:
  "\<forall>c\<in>set cs. \<not> isl (escapeValue L c) \<Longrightarrow>
   escapeCols L cs = Inr (map (\<lambda>c. projr (escapeValue L c)) cs)"
  by (induction cs) (auto split: sum.splits)

lemma escapeCols_Inr_D:
  "escapeCols L cs = Inr es \<Longrightarrow> \<forall>c\<in>set cs. \<not> isl (escapeValue L c)"
  by (induction cs arbitrary: es) (auto split: sum.splits)

lemma escape_error_shape:
  "escapeValue L v = Inl e \<longrightarrow> (\<exists>u. unsupported u \<and> e = UnexpectedType (typeName u) u)"
  "escapeObject L m = Inl e \<longrightarrow> (\<exists>u. unsupported u \<and> e = UnexpectedType (typeName u) u)"
  "escapePairs L m ks = Inl e \<longrightarrow> (\<exists>u. unsupported u \<and> e = UnexpectedType (typeName u) u)"
proof (induction L v and L m and L m ks arbitrary: e and e and e
       rule: escapeValue_escapeObject_escapePairs.induct)
  case (16 L m)
  then show ?case by (auto split: sum.splits)
next
  case (18 L m k ks)
  then show ?case by (auto split: sum.splits)
qed (auto intro: unsupported.simps)

lemma escapePairs_first_error:
  "\<forall>k\<in>set pre. \<not> isl (escapeValue L (index m k)) \<Longrightarrow> escapeValue L (index m k) = Inl e \<Longrightarrow>
   escapePairs L m (pre @ k # post) = Inl e"
  by (induction pre) (auto split: sum.splits)

lemma escapeCols_first_error:
  "\<forall>c\<in>set pre. \<not> isl (escapeValue L c) \<Longrightarrow> escapeValue L c = Inl e \<Longrightarrow>
   escapeCols L (pre @ c # post) = Inl e"
  by (induction pre) (auto split: sum.splits)

lemma buildRows_first_error:
  "\<forall>m\<in>set pre. \<not> isl (escapeCols L (cols L loc m)) \<Longrightarrow> escapeCols L (cols L loc m) = Inl e \<Longrightarrow>
   buildRows L loc (pre @ m # post) = Inl e"
  by (induction pre) (auto split: sum.splits)

lemma escapePairs_projr:
  "\<forall>k\<in>set ks. \<not> isl (escapeValue L (index m k)) \<Longrightarrow>
   escapePairs L m ks =
     Inr (map (\<lambda>k. escapeString k [CHR 0x22] @ '' = '' @ projr (escapeValue L (index m k))) ks)"
  by (induction ks) (auto split: sum.splits)


lemma buildRows_projr:
  "\<forall>m\<in>set ms. \<not> isl (escapeCols L (cols L loc m)) \<Longrightarrow>
   buildRows L loc ms =
     Inr (map (\<lambda>m. ''('' @ Join (projr (escapeCols L (cols L loc m))) '', '' @ '')'') ms)"
  by (induction ms) (auto split: sum.splits)

lemma buildRows_Inr_D:
  "buildRows L loc ms = Inr rows \<Longrightarrow> \<forall>m\<in>set ms. \<not> isl (escapeCols L (cols L loc m))"
  by (induction ms arbitrary: rows) (auto split: sum.splits)

lemma escapePairs_cong:
  "\<forall>k\<in>set ks. escapeValue L (index m1 k) = escapeValue L (index m2 k) \<Longrightarrow>
   escapePairs L m1 ks = escapePairs L m2 ks"
  by (induction ks) (auto split: sum.splits)

lemma escapeObject_Nil: "escapeObject L [] = Inr ''{}''"
  by simp

lemma insertSQL_projr:
  assumes "\<forall>m\<in>set ms. \<forall>c\<in>set (cols L loc m). \<not> isl (escapeValue L c)"
  shows \<open>insertSQL L table ms loc =
    Inr (''INSERT INTO '' @ table
         @ '' ("hash_id", "timestamp", "name", "tags", "fields")\<newline>VALUES\<newline>''
         @ Join (map (\<lambda>m. ''('' @ Join (map (\<lambda>c. projr (escapeValue L c)) (cols L loc m)) '', ''
                           @ '')'') ms) '' ,\<newline>''
         @ '';'')\<close>
proof -
  have c: "escapeCols L (cols L loc m) = Inr (map (\<lambda>c. projr (escapeValue L c)) (cols L loc m))"
    if "m \<in> set ms" for m
    using assms that by (intro escapeCols_projr) blast
  then have "\<forall>m\<in>set ms. \<not> isl (escapeCols L (cols L loc m))" by simp
  then have "buildRows L loc ms =
     Inr (map (\<lambda>m. ''('' @ Join (projr (escapeCols L (cols L loc m))) '', '' @ '')'') ms)"
    by (rule buildRows_projr)
  also have "map (\<lambda>m. ''('' @ Join (projr (escapeCols L (cols L loc m))) '', '' @ '')'') ms =
     map (\<lambda>m. ''('' @ Join (map (\<lambda>c. projr (escapeValue L c)) (cols L loc m)) '', '' @ '')'') ms"
    using c by simp
  finally show ?thesis by (simp add: insertSQL_def)
qed

lemma insertSQL_Inr_D:
  assumes "insertSQL L table ms loc = Inr sql"
  shows "\<forall>m\<in>set ms. \<forall>c\<in>set (cols L loc m). \<not> isl (escapeValue L c)"
proof -
  from assms obtain rows where "buildRows L loc ms = Inr rows"
    by (auto simp: insertSQL_def split: sum.splits)
  then have "\<forall>m\<in>set ms. \<not> isl (escapeCols L (cols L loc m))" by (rule buildRows_Inr_D)
  then show ?thesis
    using escapeCols_Inr_D by (metis isl_def sum.collapse(2))
qed

subsection \<open>Quoting\<close>

lemma collapse_other: "c \<noteq> q \<Longrightarrow> collapse q (c # r) = map_option ((#) c) (collapse q r)"
  by (cases r) auto

lemma collapse_doubled: "collapse q (doubled q s) = Some s"
  by (induction s) (simp_all add: doubled_def collapse_other)

lemma unquote_quoted: "unquote q (q # doubled q s @ [q]) = Some s"
  by (simp add: unquote_def collapse_doubled)

lemma escapeString_doubled: "escapeString s [q] = q # doubled q s @ [q]"
  by (simp add: escapeString_char doubled_def)

subsection \<open>The columns that always encode\<close>

lemma index_convertMap:
  "k \<in> set (map fst t) \<Longrightarrow> \<exists>v. index (convertMap t) k = VString v"
  by (induction t) (auto simp: index_def convertMap_def)

lemma escapeValue_tags_ok: "\<not> isl (escapeValue L (VMapString t))"
proof -
  have "\<forall>k\<in>set ks. \<not> isl (escapeValue L (index (convertMap t) k))"
    if "set ks \<subseteq> set (map fst t)" for ks
  proof
    fix k assume "k \<in> set ks"
    with that have "k \<in> set (map fst t)" by blast
    then obtain v where "index (convertMap t) k = VString v"
      using index_convertMap by blast
    then show "\<not> isl (escapeValue L (index (convertMap t) k))" by simp
  qed
  from this [of "sort (map fst (convertMap t))"]
  have "\<forall>k\<in>set (sort (map fst (convertMap t))). \<not> isl (escapeValue L (index (convertMap t) k))"
    by (simp add: convertMap_def case_prod_unfold comp_def)
  from escapePairs_projr [OF this] show ?thesis by simp
qed

lemma cols_ok_iff:
  "(\<forall>c\<in>set (cols L loc m). \<not> isl (escapeValue L c)) \<longleftrightarrow>
   \<not> isl (escapeValue L (VMapIface (Fields m)))"
  using escapeValue_tags_ok [of L "Tags m"] by (simp add: cols_def)

lemma Join_5: "Join [a, b, c, d, e] sep = a @ sep @ b @ sep @ c @ sep @ d @ sep @ e"
  by simp

subsection \<open>The order of the keys\<close>

lemma sort_keys_eq:
  assumes "distinct (map fst m1)" and "distinct (map fst m2)"
    and "set (map fst m1) = set (map fst m2)"
  shows "sort (map fst m1) = sort (map fst m2)"
proof (rule sorted_distinct_set_unique)
  show "sorted (sort (map fst m1))" and "sorted (sort (map fst m2))" by simp_all
  show "distinct (sort (map fst m1))" and "distinct (sort (map fst m2))"
    using assms by simp_all
  show "set (sort (map fst m1)) = set (sort (map fst m2))"
    using assms(3) by simp
qed

lemma index_eq:
  assumes "distinct (map fst m1)" and "distinct (map fst m2)" and "set m1 = set m2"
  shows "index m1 k = index m2 k"
proof -
  have "map_of m1 = map_of m2" using assms by (simp add: map_of_inject_set)
  then show ?thesis by (simp add: index_def)
qed

lemma escapeObject_perm:
  assumes "distinct (map fst m1)" and "distinct (map fst m2)" and "set m1 = set m2"
  shows "escapeObject L m1 = escapeObject L m2"
proof -
  have "set (map fst m1) = set (map fst m2)" using assms(3) by simp
  with assms have k: "sort (map fst m1) = sort (map fst m2)" by (intro sort_keys_eq)
  have "escapePairs L m1 ks = escapePairs L m2 ks" for ks
    using index_eq [OF assms] by (intro escapePairs_cong) simp
  with k show ?thesis by simp
qed

lemma map_fst_convertMap: "map fst (convertMap t) = map fst t"
  by (simp add: convertMap_def case_prod_unfold comp_def)

lemma set_convertMap: "set (convertMap t) = (\<lambda>p. (fst p, VString (snd p))) ` set t"
  by (simp add: convertMap_def case_prod_unfold)

lemma same_content_map:
  "same_content (VMapIface m1) w =
     (\<exists>m2. w = VMapIface m2 \<and> distinct (map fst m1) \<and> distinct (map fst m2)
        \<and> set (map fst m1) = set (map fst m2)
        \<and> (\<forall>k\<in>set (map fst m1). same_content (index m1 k) (index m2 k)))"
  by (subst same_content.simps) (cases w; simp add: list_all_iff)

lemma same_content_other:
  "\<forall>m. v \<noteq> VMapIface m \<Longrightarrow> same_content v w = (v = w)"
  by (subst same_content.simps) (cases v; simp)

lemma escapeValue_same_content:
  "same_content v w \<Longrightarrow> escapeValue L v = escapeValue L w"
proof (induction v w rule: same_content.induct)
  case (1 v w)
  show ?case
  proof (cases "\<exists>m1. v = VMapIface m1")
    case False
    with "1.prems" show ?thesis by (simp add: same_content_other)
  next
    case True
    then obtain m1 where v: "v = VMapIface m1" by blast
    with "1.prems" have "same_content (VMapIface m1) w" by simp
    then obtain m2 where w: "w = VMapIface m2"
      and d: "distinct (map fst m1)" "distinct (map fst m2)"
      and k: "set (map fst m1) = set (map fst m2)"
      and a: "\<forall>k\<in>set (map fst m1). same_content (index m1 k) (index m2 k)"
      unfolding same_content_map by blast
    have "escapeValue L (index m1 k) = escapeValue L (index m2 k)"
      if "k \<in> set (map fst m1)" for k
      using "1.IH" [OF v w that] a that by blast
    then have "escapePairs L m1 (sort (map fst m1)) = escapePairs L m2 (sort (map fst m1))"
      by (intro escapePairs_cong) simp
    moreover have "sort (map fst m1) = sort (map fst m2)" using d k by (rule sort_keys_eq)
    ultimately show ?thesis using v w by simp
  qed
qed

subsection \<open>The text of a timestamp\<close>








lemma decimalNat_digits3:
  "decimalNat [digit a, digit b, digit c] = 100 * digitValue (digit a) + 10 * digitValue (digit b)
     + digitValue (digit c)"
  by (simp add: decimalNat_def)













subsection \<open>The offending value\<close>

lemma inside_refl: "inside v v"
  by (subst inside.simps) simp

lemma inside_map:
  "inside u (VMapIface m) \<longleftrightarrow>
     u = VMapIface m \<or> (\<exists>k\<in>set (map fst m). inside u (index m k))"
  by (subst inside.simps) (simp add: list_ex_iff)

lemma offending_map:
  "offending (VMapIface m) = firstSome (map (\<lambda>k. offending (index m k)) (sort (map fst m)))"
  by (subst offending.simps) simp

lemma offending_other:
  "\<forall>m. v \<noteq> VMapIface m \<Longrightarrow> offending v = (if unsupported v then Some v else None)"
  by (subst offending.simps) (cases v; simp)

lemma firstSome_Some:
  "firstSome xs = Some u \<Longrightarrow> Some u \<in> set xs"
  by (induction xs rule: firstSome.induct) auto

lemma offending_inside: "offending v = Some u \<Longrightarrow> inside u v \<and> unsupported u"
proof (induction v arbitrary: u rule: offending.induct)
  case (1 v)
  show ?case
  proof (cases "\<exists>m. v = VMapIface m")
    case False
    with "1.prems" show ?thesis
      by (auto simp: offending_other inside_refl split: if_splits)
  next
    case True
    then obtain m where v: "v = VMapIface m" by blast
    with "1.prems" have "firstSome (map (\<lambda>k. offending (index m k)) (sort (map fst m))) = Some u"
      by (simp add: offending_map)
    then have "Some u \<in> set (map (\<lambda>k. offending (index m k)) (sort (map fst m)))"
      by (rule firstSome_Some)
    then obtain k where k: "k \<in> set (map fst m)" and o: "offending (index m k) = Some u"
      by force
    from k have "k \<in> set (sort (map fst m))" by simp
    from "1.IH" [OF v this o] have "inside u (index m k)" "unsupported u" by simp_all
    with k v show ?thesis by (auto simp: inside_map)
  qed
qed

lemma errorOf_escape:
  "errorOf (escapeValue L v) = map_option typeError (offending v)"
  "errorOf (escapeObject L m) =
     map_option typeError (firstSome (map (\<lambda>k. offending (index m k)) (sort (map fst m))))"
  "errorOf (escapePairs L m ks) =
     map_option typeError (firstSome (map (\<lambda>k. offending (index m k)) ks))"
proof (induction L v and L m and L m ks rule: escapeValue_escapeObject_escapePairs.induct)
  case (8 L t)
  have "\<not> isl (escapeValue L (VMapString t))" by (rule escapeValue_tags_ok)
  then show ?case by (auto simp: errorOf_def offending_other isl_def split: sum.splits)
next
  case (9 L t)
  then show ?case by (simp add: offending_map)
next
  case (16 L m)
  then show ?case by (auto simp: errorOf_def split: sum.splits)
next
  case (18 L m k ks)
  then show ?case
    by (cases "offending (index m k)") (auto simp: errorOf_def split: sum.splits)
qed (simp_all add: errorOf_def offending_other typeError_def)

lemma escapeValue_Inl_offending:
  assumes "escapeValue L v = Inl e"
  shows "\<exists>u. offending v = Some u \<and> e = UnexpectedType (typeName u) u \<and> inside u v \<and> unsupported u"
proof -
  from assms errorOf_escape(1) [of L v] have "map_option typeError (offending v) = Some e"
    by (simp add: errorOf_def)
  then obtain u where "offending v = Some u" "e = typeError u"
    by (cases "offending v") auto
  with offending_inside [of v u] show ?thesis by (auto simp: typeError_def)
qed

subsection \<open>The text of the statement\<close>




lemma failing_col:
  assumes "c \<in> set (cols L loc m)" and "isl (escapeValue L c)"
  shows "c = VMapIface (Fields m)"
  using assms escapeValue_tags_ok [of L "Tags m"] by (auto simp: cols_def)

section \<open>The claims of the specification\<close>

text \<open>
  C1: when the identity hash of a metric is at least \<open>2^63\<close>, the literal \<open>insertSQL\<close>
  puts in the \<open>hash_id\<close> position of that metric's tuple is the decimal text of the hash
  read as a signed 64-bit number, that is of the hash minus \<open>2^64\<close>: a negative number,
  whose text starts with a minus sign and reads back as that number. It is neither the
  unsigned decimal text nor the text of the largest signed value.
\<close>

theorem insertSQL_hash_id_signed:
  assumes "insertSQL L table ms loc = Inr sql"
    and "i < length ms"
    and "2 ^ 63 \<le> uint (HashID (ms ! i))"
  shows \<open>sql = ''INSERT INTO '' @ table
           @ '' ("hash_id", "timestamp", "name", "tags", "fields")\<newline>VALUES\<newline>''
           @ Join (map (\<lambda>m. ''('' @ Join (map (\<lambda>c. projr (escapeValue L c)) (cols L loc m)) '', ''
                             @ '')'') ms) '' ,\<newline>''
           @ '';''
       \<and> map (\<lambda>c. projr (escapeValue L c)) (cols L loc (ms ! i)) =
           Sprint_int (uint (HashID (ms ! i)) - 2 ^ 64)
           # map (\<lambda>c. projr (escapeValue L c)) (tl (cols L loc (ms ! i)))
       \<and> sint (HashID (ms ! i)) = uint (HashID (ms ! i)) - 2 ^ 64
       \<and> uint (HashID (ms ! i)) - 2 ^ 64 < 0
       \<and> hd (Sprint_int (uint (HashID (ms ! i)) - 2 ^ 64)) = CHR ''-''
       \<and> decimalInt (Sprint_int (uint (HashID (ms ! i)) - 2 ^ 64)) =
           uint (HashID (ms ! i)) - 2 ^ 64
       \<and> Sprint_int (uint (HashID (ms ! i)) - 2 ^ 64) \<noteq> utoa (nat (uint (HashID (ms ! i))))
       \<and> Sprint_int (uint (HashID (ms ! i)) - 2 ^ 64) \<noteq> Sprint_int (2 ^ 63 - 1)\<close>
proof -
  let ?h = "HashID (ms ! i)"
  let ?n = "uint ?h - 2 ^ 64"
  have ok: "\<forall>m\<in>set ms. \<forall>c\<in>set (cols L loc m). \<not> isl (escapeValue L c)"
    using assms(1) by (rule insertSQL_Inr_D)
  have sql: \<open>sql = ''INSERT INTO '' @ table
           @ '' ("hash_id", "timestamp", "name", "tags", "fields")\<newline>VALUES\<newline>''
           @ Join (map (\<lambda>m. ''('' @ Join (map (\<lambda>c. projr (escapeValue L c)) (cols L loc m)) '', ''
                             @ '')'') ms) '' ,\<newline>''
           @ '';''\<close>
    using insertSQL_projr [OF ok, of table] assms(1) by simp
  have s: "sint ?h = ?n" using assms(3) by (rule sint_64_high)
  have neg: "?n < 0" using uint_64_less [of ?h] by simp
  have lit: "map (\<lambda>c. projr (escapeValue L c)) (cols L loc (ms ! i)) =
      Sprint_int ?n # map (\<lambda>c. projr (escapeValue L c)) (tl (cols L loc (ms ! i)))"
    using s by (simp add: cols_def int64_def)
  have hd: "hd (Sprint_int ?n) = CHR ''-''" using neg by (rule hd_Sprint_int_neg)
  have ne1: "Sprint_int ?n \<noteq> utoa (nat (uint ?h))"
    using hd hd_utoa_not_minus [of "nat (uint ?h)"] by auto
  have "hd (Sprint_int (2 ^ 63 - 1)) \<noteq> CHR ''-''" by (rule hd_Sprint_int_nonneg) simp
  with hd have ne2: "Sprint_int ?n \<noteq> Sprint_int (2 ^ 63 - 1)" by auto
  show ?thesis
    using sql lit s neg hd ne1 ne2 decimalInt_Sprint_int [of ?n] by blast
qed

theorem insertSQL_hash_id_signed_witness:
  \<open>insertSQL exampleLib ''metrics'' [idleMetric, cpuMetric] Local =
     Inr (''INSERT INTO metrics ("hash_id", "timestamp", "name", "tags", "fields")\<newline>VALUES\<newline>''
       @ ''(7, '' @ [CHR 0x27] @ ''2023-01-02T03:04:05+0000'' @ [CHR 0x27] @ '', ''
       @ [CHR 0x27] @ ''idle'' @ [CHR 0x27] @ '', {}, {}) ,\<newline>''
       @ ''(-4141642024207325902, '' @ [CHR 0x27] @ ''2023-01-02T03:04:05.678+0000''
       @ [CHR 0x27] @ '', '' @ [CHR 0x27] @ ''cpu'' @ [CHR 0x27] @ '', {"host" = ''
       @ [CHR 0x27] @ ''a'' @ [CHR 0x27, CHR 0x27] @ ''s-box'' @ [CHR 0x27]
       @ ''}, {"usage" = 42.5});'')
   \<and> (1::nat) < length [idleMetric, cpuMetric]
   \<and> 2 ^ 63 \<le> uint (HashID ([idleMetric, cpuMetric] ! 1))
   \<and> hd (map (\<lambda>c. projr (escapeValue exampleLib c)) (cols exampleLib Local cpuMetric)) =
       ''-4141642024207325902''
   \<and> sint (HashID cpuMetric) = - 4141642024207325902\<close>
proof -
  have h1: \<open>insertSQL exampleLib ''metrics'' [idleMetric, cpuMetric] Local =
     Inr (''INSERT INTO metrics ("hash_id", "timestamp", "name", "tags", "fields")\<newline>VALUES\<newline>''
       @ ''(7, '' @ [CHR 0x27] @ ''2023-01-02T03:04:05+0000'' @ [CHR 0x27] @ '', ''
       @ [CHR 0x27] @ ''idle'' @ [CHR 0x27] @ '', {}, {}) ,\<newline>''
       @ ''(-4141642024207325902, '' @ [CHR 0x27] @ ''2023-01-02T03:04:05.678+0000''
       @ [CHR 0x27] @ '', '' @ [CHR 0x27] @ ''cpu'' @ [CHR 0x27] @ '', {"host" = ''
       @ [CHR 0x27] @ ''a'' @ [CHR 0x27, CHR 0x27] @ ''s-box'' @ [CHR 0x27]
       @ ''}, {"usage" = 42.5});'')\<close>
    by (simp add: eval_simps cpuMetric_def idleMetric_def)
  have h2: "(1::nat) < length [idleMetric, cpuMetric]" by simp
  have h3: "2 ^ 63 \<le> uint (HashID ([idleMetric, cpuMetric] ! 1))"
    by (simp add: cpuMetric_def)
  have v: "uint (HashID cpuMetric) - 2 ^ 64 = - 4141642024207325902"
    by (simp add: cpuMetric_def)
  have t: "Sprint_int (- 4141642024207325902) = ''-4141642024207325902''"
    by (simp add: Sprint_int_def utoa.simps digit_def)
  from insertSQL_hash_id_signed [OF h1 h2 h3] v t
  have "hd (map (\<lambda>c. projr (escapeValue exampleLib c)) (cols exampleLib Local cpuMetric)) =
       ''-4141642024207325902''"
    and "sint (HashID cpuMetric) = - 4141642024207325902"
    by simp_all
  with h1 h2 h3 show ?thesis by blast
qed

text \<open>
  C2 (as the code has it): on an empty sequence of metrics \<open>insertSQL\<close> returns no error;
  it returns the statement text with the column list and an empty VALUES clause.
\<close>

theorem insertSQL_empty_batch:
  \<open>insertSQL L table [] loc =
     Inr (''INSERT INTO '' @ table
          @ '' ("hash_id", "timestamp", "name", "tags", "fields")\<newline>VALUES\<newline>;'')\<close>
  by (simp add: insertSQL_def)

theorem insertSQL_empty_batch_witness:
  \<open>insertSQL exampleLib ''cpu_metrics'' [] UTC =
     Inr ''INSERT INTO cpu_metrics ("hash_id", "timestamp", "name", "tags", "fields")\<newline>VALUES\<newline>;''\<close>
  using insertSQL_empty_batch [of exampleLib "''cpu_metrics''" UTC] by simp

theorem insertSQL_empty_batch_counterexample:
  \<open>\<not> isl (insertSQL exampleLib ''metrics'' [] Local)
   \<and> insertSQL exampleLib ''metrics'' [] Local =
       Inr ''INSERT INTO metrics ("hash_id", "timestamp", "name", "tags", "fields")\<newline>VALUES\<newline>;''\<close>
  by (simp add: insertSQL_def)

text \<open>
  C3: when the encoding of a column of a metric fails, \<open>insertSQL\<close> returns an error and
  no text. The error is the one \<open>escapeValue\<close> gives for the first failing column of the
  first failing metric: every metric before it and every column before it are encoded
  without error. That column is the map of fields. The error is the unexpected-type
  error carrying the type name of the offending value: a value the type switch sends to
  its default case, found inside the fields, the first such value when the keys are
  visited in ascending order at every level.
\<close>

theorem insertSQL_unsupported_aborts:
  assumes "m \<in> set ms" and "c \<in> set (cols L loc m)" and "isl (escapeValue L c)"
  shows "\<exists>pre m' post cpre c' cpost e v.
      ms = pre @ m' # post
    \<and> (\<forall>x\<in>set pre. \<forall>y\<in>set (cols L loc x). \<not> isl (escapeValue L y))
    \<and> cols L loc m' = cpre @ c' # cpost
    \<and> (\<forall>y\<in>set cpre. \<not> isl (escapeValue L y))
    \<and> escapeValue L c' = Inl e
    \<and> insertSQL L table ms loc = Inl e
    \<and> e = UnexpectedType (typeName v) v
    \<and> unsupported v
    \<and> c' = VMapIface (Fields m')
    \<and> offending c' = Some v
    \<and> inside v c'"
proof -
  let ?bad = "\<lambda>x. \<exists>y\<in>set (cols L loc x). isl (escapeValue L y)"
  from assms have "\<exists>x\<in>set ms. ?bad x" by blast
  then obtain pre m' post where ms: "ms = pre @ m' # post" and bad: "?bad m'"
    and pre: "\<forall>x\<in>set pre. \<not> ?bad x"
    using split_list_first_prop [of ms ?bad] by blast
  from bad obtain cpre c' cpost where cs: "cols L loc m' = cpre @ c' # cpost"
    and c': "isl (escapeValue L c')" and cpre: "\<forall>y\<in>set cpre. \<not> isl (escapeValue L y)"
    using split_list_first_prop [of "cols L loc m'" "\<lambda>y. isl (escapeValue L y)"] by blast
  from cs have "c' \<in> set (cols L loc m')" by simp
  then have f: "c' = VMapIface (Fields m')" using c' by (rule failing_col)
  from c' obtain e where e: "escapeValue L c' = Inl e" by (auto simp: isl_def)
  from escapeValue_Inl_offending [OF e] obtain v
    where v: "offending c' = Some v" "e = UnexpectedType (typeName v) v" "inside v c'"
      "unsupported v" by blast
  have "escapeCols L (cols L loc m') = Inl e"
    unfolding cs using cpre e by (rule escapeCols_first_error)
  moreover have "\<forall>x\<in>set pre. \<not> isl (escapeCols L (cols L loc x))"
  proof
    fix x assume "x \<in> set pre"
    with pre have "\<forall>y\<in>set (cols L loc x). \<not> isl (escapeValue L y)" by blast
    from escapeCols_projr [OF this] show "\<not> isl (escapeCols L (cols L loc x))" by simp
  qed
  ultimately have "buildRows L loc ms = Inl e"
    unfolding ms by (intro buildRows_first_error)
  then have "insertSQL L table ms loc = Inl e" by (simp add: insertSQL_def)
  with ms pre cs cpre e v f show ?thesis by blast
qed

theorem insertSQL_unsupported_aborts_witness:
  "badMetric \<in> set [idleMetric, badMetric, cpuMetric]
   \<and> VMapIface (Fields badMetric) \<in> set (cols exampleLib Local badMetric)
   \<and> isl (escapeValue exampleLib (VMapIface (Fields badMetric)))
   \<and> offending (VMapIface (Fields badMetric)) = Some (VUint64 1)
   \<and> inside (VUint64 1) (VMapIface (Fields badMetric))
   \<and> isl (insertSQL exampleLib ''metrics'' [idleMetric, badMetric, cpuMetric] Local)
   \<and> insertSQL exampleLib ''metrics'' [idleMetric, badMetric, cpuMetric] Local =
       Inl (UnexpectedType ''uint64'' (VUint64 1))"
proof -
  have h1: "badMetric \<in> set [idleMetric, badMetric, cpuMetric]" by simp
  have h2: "VMapIface (Fields badMetric) \<in> set (cols exampleLib Local badMetric)"
    by (simp add: cols_def)
  have h3: "isl (escapeValue exampleLib (VMapIface (Fields badMetric)))"
    by (simp add: badMetric_def index_def)
  have o: "offending (VMapIface (Fields badMetric)) = Some (VUint64 1)"
    by (simp add: badMetric_def offending_map offending_other index_def)
  have i: "inside (VUint64 1) (VMapIface (Fields badMetric))"
    by (simp add: badMetric_def inside_map inside_refl index_def)
  from insertSQL_unsupported_aborts [OF h1 h2 h3, of "''metrics''"]
  have a: "isl (insertSQL exampleLib ''metrics'' [idleMetric, badMetric, cpuMetric] Local)"
    by auto
  have b: "insertSQL exampleLib ''metrics'' [idleMetric, badMetric, cpuMetric] Local =
       Inl (UnexpectedType ''uint64'' (VUint64 1))"
    by (simp add: eval_simps idleMetric_def badMetric_def)
  from h1 h2 h3 o i a b show ?thesis by blast
qed

text \<open>
  C4 (as the code has it): when the fields of every metric can be encoded (the other four
  columns always can), \<open>insertSQL\<close> returns the text \<open>INSERT INTO <table> ("hash_id",
  "timestamp", "name", "tags", "fields")\<close>, a newline, \<open>VALUES\<close>, a newline, the tuples and
  \<open>;\<close>. There is one tuple per metric, in the order of the metrics; a tuple is \<open>(\<close>, the
  five encoded columns identity, timestamp, name, tags, fields joined by \<open>, \<close> and \<open>)\<close>;
  the tuples are joined by a space, a comma and a newline.
\<close>

theorem insertSQL_statement_text:
  assumes "\<forall>m\<in>set ms. \<not> isl (escapeValue L (VMapIface (Fields m)))"
  shows \<open>insertSQL L table ms loc =
     Inr (''INSERT INTO '' @ table
          @ '' ("hash_id", "timestamp", "name", "tags", "fields")\<newline>VALUES\<newline>''
          @ Join (map (\<lambda>m. ''('' @ projr (escapeValue L (VInt64 (int64 (HashID m))))
                            @ '', '' @ projr (escapeValue L (VTime (In L (Time m) loc)))
                            @ '', '' @ projr (escapeValue L (VString (Name m)))
                            @ '', '' @ projr (escapeValue L (VMapString (Tags m)))
                            @ '', '' @ projr (escapeValue L (VMapIface (Fields m)))
                            @ '')'') ms) '' ,\<newline>''
          @ '';'')
   \<and> length (map (\<lambda>m. ''('' @ projr (escapeValue L (VInt64 (int64 (HashID m))))
                            @ '', '' @ projr (escapeValue L (VTime (In L (Time m) loc)))
                            @ '', '' @ projr (escapeValue L (VString (Name m)))
                            @ '', '' @ projr (escapeValue L (VMapString (Tags m)))
                            @ '', '' @ projr (escapeValue L (VMapIface (Fields m)))
                            @ '')'') ms) = length ms
   \<and> (\<forall>m\<in>set ms. length (cols L loc m) = 5
         \<and> escapeCols L (cols L loc m) =
             Inr [projr (escapeValue L (VInt64 (int64 (HashID m)))),
                  projr (escapeValue L (VTime (In L (Time m) loc))),
                  projr (escapeValue L (VString (Name m))),
                  projr (escapeValue L (VMapString (Tags m))),
                  projr (escapeValue L (VMapIface (Fields m)))])\<close>
proof -
  have ok: "\<forall>m\<in>set ms. \<forall>c\<in>set (cols L loc m). \<not> isl (escapeValue L c)"
    using assms by (simp add: cols_ok_iff)
  have row: "''('' @ Join (map (\<lambda>c. projr (escapeValue L c)) (cols L loc m)) '', '' @ '')'' =
      ''('' @ projr (escapeValue L (VInt64 (int64 (HashID m))))
      @ '', '' @ projr (escapeValue L (VTime (In L (Time m) loc)))
      @ '', '' @ projr (escapeValue L (VString (Name m)))
      @ '', '' @ projr (escapeValue L (VMapString (Tags m)))
      @ '', '' @ projr (escapeValue L (VMapIface (Fields m)))
      @ '')''" for m
    by (simp only: cols_def list.map Join_5 append_assoc)
  have c: "escapeCols L (cols L loc m) =
             Inr [projr (escapeValue L (VInt64 (int64 (HashID m)))),
                  projr (escapeValue L (VTime (In L (Time m) loc))),
                  projr (escapeValue L (VString (Name m))),
                  projr (escapeValue L (VMapString (Tags m))),
                  projr (escapeValue L (VMapIface (Fields m)))]"
    if "m \<in> set ms" for m
  proof -
    from ok that have "\<forall>c\<in>set (cols L loc m). \<not> isl (escapeValue L c)" by blast
    from escapeCols_projr [OF this] show ?thesis by (simp only: cols_def list.map)
  qed
  have len: "length (cols L loc m) = 5" for m by (simp add: cols_def)
  from insertSQL_projr [OF ok, of table] row c len show ?thesis by simp
qed

theorem insertSQL_statement_text_witness:
  \<open>\<not> isl (escapeValue exampleLib (VMapIface (Fields cpuMetric)))
   \<and> \<not> isl (escapeValue exampleLib (VMapIface (Fields idleMetric)))
   \<and> insertSQL exampleLib ''metrics'' [cpuMetric, idleMetric] Local =
     Inr (''INSERT INTO metrics ("hash_id", "timestamp", "name", "tags", "fields")\<newline>VALUES\<newline>''
       @ ''(-4141642024207325902, '' @ [CHR 0x27] @ ''2023-01-02T03:04:05.678+0000''
       @ [CHR 0x27] @ '', '' @ [CHR 0x27] @ ''cpu'' @ [CHR 0x27] @ '', {"host" = ''
       @ [CHR 0x27] @ ''a'' @ [CHR 0x27, CHR 0x27] @ ''s-box'' @ [CHR 0x27]
       @ ''}, {"usage" = 42.5}) ,\<newline>''
       @ ''(7, '' @ [CHR 0x27] @ ''2023-01-02T03:04:05+0000'' @ [CHR 0x27] @ '', ''
       @ [CHR 0x27] @ ''idle'' @ [CHR 0x27] @ '', {}, {});'')\<close>
proof -
  have f: "\<not> isl (escapeValue exampleLib (VMapIface (Fields cpuMetric)))"
    "\<not> isl (escapeValue exampleLib (VMapIface (Fields idleMetric)))"
    by (simp_all add: eval_simps cpuMetric_def idleMetric_def)
  then have h: "\<forall>m\<in>set [cpuMetric, idleMetric].
      \<not> isl (escapeValue exampleLib (VMapIface (Fields m)))" by simp
  have v: "projr (escapeValue exampleLib (VInt64 (int64 (HashID cpuMetric)))) =
        ''-4141642024207325902''"
    "projr (escapeValue exampleLib (VTime (In exampleLib (Time cpuMetric) Local))) =
        [CHR 0x27] @ ''2023-01-02T03:04:05.678+0000'' @ [CHR 0x27]"
    "projr (escapeValue exampleLib (VString (Name cpuMetric))) = [CHR 0x27] @ ''cpu'' @ [CHR 0x27]"
    \<open>projr (escapeValue exampleLib (VMapString (Tags cpuMetric))) =
        ''{"host" = '' @ [CHR 0x27] @ ''a'' @ [CHR 0x27, CHR 0x27] @ ''s-box'' @ [CHR 0x27] @ ''}''\<close>
    \<open>projr (escapeValue exampleLib (VMapIface (Fields cpuMetric))) = ''{"usage" = 42.5}''\<close>
    "projr (escapeValue exampleLib (VInt64 (int64 (HashID idleMetric)))) = ''7''"
    "projr (escapeValue exampleLib (VTime (In exampleLib (Time idleMetric) Local))) =
        [CHR 0x27] @ ''2023-01-02T03:04:05+0000'' @ [CHR 0x27]"
    "projr (escapeValue exampleLib (VString (Name idleMetric))) = [CHR 0x27] @ ''idle'' @ [CHR 0x27]"
    "projr (escapeValue exampleLib (VMapString (Tags idleMetric))) = ''{}''"
    "projr (escapeValue exampleLib (VMapIface (Fields idleMetric))) = ''{}''"
    by (simp_all add: eval_simps cpuMetric_def idleMetric_def)
  from insertSQL_statement_text [OF h, of "''metrics''" Local, THEN conjunct1]
  have \<open>insertSQL exampleLib ''metrics'' [cpuMetric, idleMetric] Local =
     Inr (''INSERT INTO metrics ("hash_id", "timestamp", "name", "tags", "fields")\<newline>VALUES\<newline>''
       @ ''(-4141642024207325902, '' @ [CHR 0x27] @ ''2023-01-02T03:04:05.678+0000''
       @ [CHR 0x27] @ '', '' @ [CHR 0x27] @ ''cpu'' @ [CHR 0x27] @ '', {"host" = ''
       @ [CHR 0x27] @ ''a'' @ [CHR 0x27, CHR 0x27] @ ''s-box'' @ [CHR 0x27]
       @ ''}, {"usage" = 42.5}) ,\<newline>''
       @ ''(7, '' @ [CHR 0x27] @ ''2023-01-02T03:04:05+0000'' @ [CHR 0x27] @ '', ''
       @ [CHR 0x27] @ ''idle'' @ [CHR 0x27] @ '', {}, {});'')\<close>
    by (simp only: v list.map Join.simps append.simps)
  with f show ?thesis by blast
qed

theorem insertSQL_statement_text_counterexample:
  \<open>insertSQL exampleLib ''metrics'' [cpuMetric, idleMetric] Local \<noteq>
     Inr (spec_statement ''metrics''
       [''(-4141642024207325902, '' @ [CHR 0x27] @ ''2023-01-02T03:04:05.678+0000''
        @ [CHR 0x27] @ '', '' @ [CHR 0x27] @ ''cpu'' @ [CHR 0x27] @ '', {"host" = ''
        @ [CHR 0x27] @ ''a'' @ [CHR 0x27, CHR 0x27] @ ''s-box'' @ [CHR 0x27]
        @ ''}, {"usage" = 42.5})'',
        ''(7, '' @ [CHR 0x27] @ ''2023-01-02T03:04:05+0000'' @ [CHR 0x27] @ '', ''
        @ [CHR 0x27] @ ''idle'' @ [CHR 0x27] @ '', {}, {})''])
   \<and> insertSQL exampleLib ''metrics'' [idleMetric] Local \<noteq>
     Inr (spec_statement ''metrics''
       [''(7, '' @ [CHR 0x27] @ ''2023-01-02T03:04:05+0000'' @ [CHR 0x27] @ '', ''
        @ [CHR 0x27] @ ''idle'' @ [CHR 0x27] @ '', {}, {})''])\<close>
  by (simp add: eval_simps spec_statement_def cpuMetric_def idleMetric_def)

text \<open>
  C5: two maps with the same keys and values, visited by \<open>range\<close> in different orders,
  have the same encoding, byte for byte; the keys are enumerated in ascending order
  whatever the order of the visit. This holds for a map of fields and for a map of tags,
  and also when maps nested in the values are visited in different orders.
\<close>

theorem escapeObject_order_independent:
  assumes "distinct (map fst m1)" and "distinct (map fst m2)" and "set m1 = set m2"
  shows "escapeObject L m1 = escapeObject L m2
       \<and> escapeValue L (VMapIface m1) = escapeValue L (VMapIface m2)
       \<and> sort (map fst m1) = sort (map fst m2)
       \<and> sorted (sort (map fst m1))
       \<and> (\<forall>t1 t2. distinct (map fst t1) \<and> distinct (map fst t2) \<and> set t1 = set t2 \<longrightarrow>
             escapeValue L (VMapString t1) = escapeValue L (VMapString t2))
       \<and> (\<forall>v w. same_content v w \<longrightarrow> escapeValue L v = escapeValue L w)"
proof -
  have a: "escapeObject L m1 = escapeObject L m2" using assms by (rule escapeObject_perm)
  have "set (map fst m1) = set (map fst m2)" using assms(3) by simp
  with assms have k: "sort (map fst m1) = sort (map fst m2)" by (intro sort_keys_eq)
  have t: "escapeValue L (VMapString t1) = escapeValue L (VMapString t2)"
    if "distinct (map fst t1)" "distinct (map fst t2)" "set t1 = set t2" for t1 t2
  proof -
    have "escapeObject L (convertMap t1) = escapeObject L (convertMap t2)"
      using that by (intro escapeObject_perm) (simp_all only: map_fst_convertMap set_convertMap)
    then show ?thesis by simp
  qed
  from a k t escapeValue_same_content [of _ _ L] show ?thesis by simp
qed

theorem escapeObject_order_independent_witness:
  \<open>distinct (map fst nestedFields) \<and> distinct (map fst nestedFields')
   \<and> set nestedFields = set nestedFields'
   \<and> nestedFields \<noteq> nestedFields'
   \<and> escapeObject exampleLib nestedFields = escapeObject exampleLib nestedFields'
   \<and> escapeObject exampleLib nestedFields = Inr (''{"a" = {"y""" = '' @ [CHR 0x27] @ ''q''
        @ [CHR 0x27] @ '', "z" = -5}, "b" = 1}'')
   \<and> same_content (VMapIface nestedFields)
        (VMapIface [(''a'', VMapIface [(''y"'', VString ''q''), (''z'', VInt32 (- 5))]),
                    (''b'', VInt 1)])
   \<and> escapeValue exampleLib (VMapIface nestedFields) =
       escapeValue exampleLib
        (VMapIface [(''a'', VMapIface [(''y"'', VString ''q''), (''z'', VInt32 (- 5))]),
                    (''b'', VInt 1)])\<close>
proof -
  have h: "distinct (map fst nestedFields)" "distinct (map fst nestedFields')"
    "set nestedFields = set nestedFields'"
    by (auto simp: nestedFields_def nestedFields'_def)
  have n: "nestedFields \<noteq> nestedFields'" by (simp add: nestedFields_def nestedFields'_def)
  have e: \<open>escapeObject exampleLib nestedFields = Inr (''{"a" = {"y""" = '' @ [CHR 0x27] @ ''q''
        @ [CHR 0x27] @ '', "z" = -5}, "b" = 1}'')\<close>
    by (simp add: nestedFields_def eval_simps)
  have c: \<open>same_content (VMapIface nestedFields)
        (VMapIface [(''a'', VMapIface [(''y"'', VString ''q''), (''z'', VInt32 (- 5))]),
                    (''b'', VInt 1)])\<close>
    by (auto simp: nestedFields_def same_content_map same_content_other index_def)
  note T = escapeObject_order_independent [OF h, of exampleLib]
  from T have "escapeObject exampleLib nestedFields = escapeObject exampleLib nestedFields'"
    by (rule conjunct1)
  moreover from T c have \<open>escapeValue exampleLib (VMapIface nestedFields) =
       escapeValue exampleLib
        (VMapIface [(''a'', VMapIface [(''y"'', VString ''q''), (''z'', VInt32 (- 5))]),
                    (''b'', VInt 1)])\<close>
    by blast
  ultimately show ?thesis using h n e c by blast
qed

text \<open>
  C6: a text value is encoded as a single quote, the text with every single quote
  doubled and every other character unchanged, and a single quote. Stripping the outer
  quotes and collapsing each doubled quote gives the text back.
\<close>

theorem escapeValue_text_roundtrip:
  "escapeValue L (VString s) =
     Inr (CHR 0x27 # concat (map (\<lambda>c. if c = CHR 0x27 then [CHR 0x27, CHR 0x27] else [c]) s)
          @ [CHR 0x27])
   \<and> unquote (CHR 0x27) (projr (escapeValue L (VString s))) = Some s"
  using unquote_quoted [of "CHR 0x27" s]
  by (simp add: escapeString_doubled) (simp add: doubled_def)

theorem escapeValue_text_roundtrip_witness:
  "escapeValue exampleLib (VString [CHR ''a'', CHR 0x27, CHR ''s'', CHR 0x27, CHR 0x27])
     = Inr [CHR 0x27, CHR ''a'', CHR 0x27, CHR 0x27, CHR ''s'', CHR 0x27, CHR 0x27, CHR 0x27,
            CHR 0x27, CHR 0x27]
   \<and> unquote (CHR 0x27)
         [CHR 0x27, CHR ''a'', CHR 0x27, CHR 0x27, CHR ''s'', CHR 0x27, CHR 0x27, CHR 0x27,
          CHR 0x27, CHR 0x27]
     = Some [CHR ''a'', CHR 0x27, CHR ''s'', CHR 0x27, CHR 0x27]"
proof -
  have e: "escapeString [CHR ''a'', CHR 0x27, CHR ''s'', CHR 0x27, CHR 0x27] [CHR 0x27] =
      [CHR 0x27, CHR ''a'', CHR 0x27, CHR 0x27, CHR ''s'', CHR 0x27, CHR 0x27, CHR 0x27,
       CHR 0x27, CHR 0x27]"
    by (simp add: escapeString_def Replace.simps)
  from escapeValue_text_roundtrip
    [of exampleLib "[CHR ''a'', CHR 0x27, CHR ''s'', CHR 0x27, CHR 0x27]"] e
  show ?thesis by simp
qed








text \<open>
  C10: an empty map, of tags or of fields, is encoded as the literal \<open>{}\<close>, without an
  error; in the tuple of a metric without tags and fields the last two of the five
  fields are \<open>{}\<close>.
\<close>

theorem escapeValue_empty_map:
  "escapeObject L [] = Inr ''{}''
   \<and> convertMap [] = []
   \<and> escapeValue L (VMapString []) = Inr ''{}''
   \<and> escapeValue L (VMapIface []) = Inr ''{}''
   \<and> (Tags m = [] \<and> Fields m = [] \<longrightarrow>
        buildRows L loc [m] =
          Inr [''('' @ Sprint_int (sint (HashID m)) @ '', ''
               @ escapeString (Format (In L (Time m) loc)) [CHR 0x27] @ '', ''
               @ escapeString (Name m) [CHR 0x27] @ '', {}, {})''])"
  by (simp add: convertMap_def cols_def int64_def)

theorem escapeValue_empty_map_witness:
  \<open>Tags idleMetric = [] \<and> Fields idleMetric = []
   \<and> escapeValue exampleLib (VMapString (Tags idleMetric)) = Inr ''{}''
   \<and> escapeValue exampleLib (VMapIface (Fields idleMetric)) = Inr ''{}''
   \<and> buildRows exampleLib Local [idleMetric] =
       Inr [''(7, '' @ [CHR 0x27] @ ''2023-01-02T03:04:05+0000'' @ [CHR 0x27] @ '', ''
            @ [CHR 0x27] @ ''idle'' @ [CHR 0x27] @ '', {}, {})'']\<close>
proof -
  have t: "Tags idleMetric = []" "Fields idleMetric = []" by (simp_all add: idleMetric_def)
  have v: "Sprint_int (sint (HashID idleMetric)) = ''7''"
    "escapeString (Format (In exampleLib (Time idleMetric) Local)) [CHR 0x27] =
       [CHR 0x27] @ ''2023-01-02T03:04:05+0000'' @ [CHR 0x27]"
    "escapeString (Name idleMetric) [CHR 0x27] = [CHR 0x27] @ ''idle'' @ [CHR 0x27]"
    by (simp_all add: eval_simps idleMetric_def)
  from escapeValue_empty_map [of exampleLib idleMetric Local] t v
  show ?thesis by simp
qed

end
